theory Spec2Isabelle
  imports Main "HOL-Library.Multiset"
begin

section \<open>Data model of the tic-tac-toe game\<close>

text \<open>
  The game keeps one stored value, the array \<open>gameTurns\<close> of the moves made so far, newest
  first, and the object \<open>players\<close> that maps a symbol to a display name. Everything else is
  derived from them on each render: \<open>deriveActivePlayer\<close>, \<open>deriveGameBoard\<close>,
  \<open>deriveWinner\<close> and the draw flag \<open>hasDraw\<close>.

  A turn is the object \<open>{ square: { row, col }, player }\<close>. Indices are array indices
  (\<open>nat\<close>) and symbols and names are strings.
\<close>

record square =
  row :: nat
  col :: nat

record turn =
  square :: square
  player :: string

text \<open>
  A cell of the board holds \<open>null\<close> (the initial content), a player symbol, or
  \<open>undefined\<close>, which is what JavaScript reads at an index an array does not have.
\<close>

datatype cell = Null | Undefined | Sym string

type_synonym board = "cell list list"

text \<open>The player registry: a JavaScript object read as \<open>players[symbol]\<close>;
  a missing key reads \<open>undefined\<close>, here \<open>None\<close>.\<close>

type_synonym players = "string \<rightharpoonup> string"

text \<open>Reading a property of \<open>undefined\<close> throws a \<open>TypeError\<close>.\<close>

datatype error = TypeError

subsection \<open>JavaScript arrays and truthiness\<close>

text \<open>\<open>xs[i]\<close>: an index past the end reads \<open>undefined\<close>.\<close>

definition js_get :: "cell list \<Rightarrow> nat \<Rightarrow> cell" where
  "js_get xs i = (if i < length xs then xs ! i else Undefined)"

text \<open>\<open>xs[i] = v\<close>: an index past the end extends the array, leaving holes that read
  \<open>undefined\<close>.\<close>

definition js_set :: "cell list \<Rightarrow> nat \<Rightarrow> cell \<Rightarrow> cell list" where
  "js_set xs i v =
     (if i < length xs then xs[i := v]
      else xs @ replicate (i - length xs) Undefined @ [v])"

text \<open>A cell is truthy when it holds a non-empty string; \<open>null\<close>, \<open>undefined\<close> and
  \<open>''\<close> are falsy.\<close>

fun truthy :: "cell \<Rightarrow> bool" where
  "truthy (Sym s) = (s \<noteq> [])"
| "truthy Null = False"
| "truthy Undefined = False"

section \<open>The derivations\<close>

subsection \<open>deriveActivePlayer\<close>

text \<open>
  \<^verbatim>\<open>
  function deriveActivePlayer(gameTurns) {
    let currentPlayer = 'X';
    if (gameTurns.length > 0 && gameTurns[0].player === 'X') {
      currentPlayer = 'O';
    }
    return currentPlayer;
  }
  \<close>
\<close>

definition deriveActivePlayer :: "turn list \<Rightarrow> string" where
  "deriveActivePlayer gameTurns =
     (if length gameTurns > 0 \<and> player (gameTurns ! 0) = ''X'' then ''O'' else ''X'')"

subsection \<open>deriveGameBoard\<close>

text \<open>
  \<^verbatim>\<open>
  const INITIAL_GAME_BOARD = [
    [null, null, null],
    [null, null, null],
    [null, null, null],
  ];

  function deriveGameBoard(gameTurns) {
    let gameBoard = [...INITIAL_GAME_BOARD.map((array) => [...array])];
    for (const turn of gameTurns) {
      const { square, player } = turn;
      const { row, col } = square;
      gameBoard[row][col] = player;
    }
    return gameBoard;
  }
  \<close>
  The loop visits \<open>gameTurns\<close> from index 0, that is from the newest turn to the oldest.
\<close>

definition INITIAL_GAME_BOARD :: board where
  "INITIAL_GAME_BOARD =
     [[Null, Null, Null],
      [Null, Null, Null],
      [Null, Null, Null]]"

text \<open>\<open>gameBoard[row][col] = player\<close>: when \<open>gameBoard[row]\<close> is \<open>undefined\<close> the
  assignment throws; otherwise the row is written (and extended when \<open>col\<close> is past its
  end).\<close>

definition assign :: "board \<Rightarrow> nat \<Rightarrow> nat \<Rightarrow> cell \<Rightarrow> error + board" where
  "assign gameBoard r c v =
     (if r < length gameBoard then Inr (gameBoard[r := js_set (gameBoard ! r) c v])
      else Inl TypeError)"

fun replay :: "turn list \<Rightarrow> board \<Rightarrow> error + board" where
  "replay [] gameBoard = Inr gameBoard"
| "replay (turn # rest) gameBoard =
     (case assign gameBoard (row (square turn)) (col (square turn)) (Sym (player turn)) of
        Inl e \<Rightarrow> Inl e
      | Inr gameBoard' \<Rightarrow> replay rest gameBoard')"

definition deriveGameBoard :: "turn list \<Rightarrow> error + board" where
  "deriveGameBoard gameTurns = replay gameTurns (map (\<lambda>array. array) INITIAL_GAME_BOARD)"

subsection \<open>deriveWinner\<close>

text \<open>
  \<^verbatim>\<open>
  export const WINNING_COMBINATIONS = [
    [{ row: 0, column: 0 }, { row: 0, column: 1 }, { row: 0, column: 2 }],
    ...
  ];

  function deriveWinner(gameBoard, players) {
    let winner;
    for (const combination of WINNING_COMBINATIONS) {
      const firstSquareSymbol = gameBoard[combination[0].row][combination[0].column];
      const secondSquareSymbol = gameBoard[combination[1].row][combination[1].column];
      const thirdSquareSymbol = gameBoard[combination[2].row][combination[2].column];
      if (firstSquareSymbol &&
          firstSquareSymbol === secondSquareSymbol &&
          firstSquareSymbol === thirdSquareSymbol) {
        winner = players[firstSquareSymbol];
      }
    }
    return winner;
  }
  \<close>
  Each \<open>{ row, column }\<close> object of the table is written as the pair \<open>(row, column)\<close>.
\<close>

type_synonym combination = "(nat \<times> nat) \<times> (nat \<times> nat) \<times> (nat \<times> nat)"

definition WINNING_COMBINATIONS :: "combination list" where
  "WINNING_COMBINATIONS =
     [((0, 0), (0, 1), (0, 2)),
      ((1, 0), (1, 1), (1, 2)),
      ((2, 0), (2, 1), (2, 2)),
      ((0, 0), (1, 0), (2, 0)),
      ((0, 1), (1, 1), (2, 1)),
      ((0, 2), (1, 2), (2, 2)),
      ((0, 0), (1, 1), (2, 2)),
      ((0, 2), (1, 1), (2, 0))]"

text \<open>\<open>gameBoard[r][c]\<close>: throws when \<open>gameBoard[r]\<close> is \<open>undefined\<close>.\<close>

definition read_square :: "board \<Rightarrow> nat \<times> nat \<Rightarrow> error + cell" where
  "read_square gameBoard p =
     (if fst p < length gameBoard then Inr (js_get (gameBoard ! fst p) (snd p))
      else Inl TypeError)"

text \<open>\<open>players[firstSquareSymbol]\<close>, reached only with a truthy symbol.\<close>

fun players_at :: "players \<Rightarrow> cell \<Rightarrow> string option" where
  "players_at players (Sym s) = players s"
| "players_at players Null = None"
| "players_at players Undefined = None"

text \<open>One pass of the loop body: the winner after looking at one combination.\<close>

definition check_combination ::
  "board \<Rightarrow> players \<Rightarrow> combination \<Rightarrow> string option \<Rightarrow> error + string option" where
  "check_combination gameBoard players combination winner =
     (case read_square gameBoard (fst combination) of
        Inl e \<Rightarrow> Inl e
      | Inr firstSquareSymbol \<Rightarrow>
     (case read_square gameBoard (fst (snd combination)) of
        Inl e \<Rightarrow> Inl e
      | Inr secondSquareSymbol \<Rightarrow>
     (case read_square gameBoard (snd (snd combination)) of
        Inl e \<Rightarrow> Inl e
      | Inr thirdSquareSymbol \<Rightarrow>
          Inr (if truthy firstSquareSymbol \<and>
                  firstSquareSymbol = secondSquareSymbol \<and>
                  firstSquareSymbol = thirdSquareSymbol
               then players_at players firstSquareSymbol
               else winner))))"

fun scan :: "board \<Rightarrow> players \<Rightarrow> combination list \<Rightarrow> string option \<Rightarrow> error + string option" where
  "scan gameBoard players [] winner = Inr winner"
| "scan gameBoard players (combination # rest) winner =
     (case check_combination gameBoard players combination winner of
        Inl e \<Rightarrow> Inl e
      | Inr winner' \<Rightarrow> scan gameBoard players rest winner')"

definition deriveWinner :: "board \<Rightarrow> players \<Rightarrow> error + string option" where
  "deriveWinner gameBoard players = scan gameBoard players WINNING_COMBINATIONS None"

subsection \<open>handleSelectSquare\<close>

text \<open>
  \<^verbatim>\<open>
  function handleSelectSquare(rowIndex, colIndex) {
    setGameTurns((prevTurns) => {
      const currentPlayer = deriveActivePlayer(prevTurns);
      const updatedTurns = [
        { square: { row: rowIndex, col: colIndex }, player: currentPlayer },
        ...prevTurns,
      ];
      return updatedTurns;
    });
  }
  \<close>
  The function passed to \<open>setGameTurns\<close> computes the contents of the new array:
\<close>

definition updatedTurns :: "nat \<Rightarrow> nat \<Rightarrow> turn list \<Rightarrow> turn list" where
  "updatedTurns rowIndex colIndex prevTurns =
     (let currentPlayer = deriveActivePlayer prevTurns
      in \<lparr>square = \<lparr>row = rowIndex, col = colIndex\<rparr>, player = currentPlayer\<rparr> # prevTurns)"

text \<open>
  Arrays are objects: the state variable holds a reference, and whoever kept the previous
  reference still reads through it. The store maps every reference allocated so far to the
  contents of its array; the array literal allocates the next unused reference, and the
  setter makes the state variable point to it.
\<close>

type_synonym ref = nat

record app =
  arrays :: "ref \<Rightarrow> turn list"
  fresh :: ref
  gameTurns_state :: ref

definition handleSelectSquare :: "nat \<Rightarrow> nat \<Rightarrow> app \<Rightarrow> app" where
  "handleSelectSquare rowIndex colIndex st =
     (let prevTurns = gameTurns_state st;
          contents = updatedTurns rowIndex colIndex (arrays st prevTurns)
      in st\<lparr>arrays := (arrays st)(fresh st := contents),
             fresh := Suc (fresh st),
             gameTurns_state := fresh st\<rparr>)"

text \<open>\<open>useState([])\<close>: the game starts with a reference to a new empty array.\<close>

definition initial_app :: app where
  "initial_app = \<lparr>arrays = (\<lambda>_. []), fresh = 1, gameTurns_state = 0\<rparr>"

text \<open>The move log the state variable currently points to.\<close>

definition current_turns :: "app \<Rightarrow> turn list" where
  "current_turns st = arrays st (gameTurns_state st)"

text \<open>The states the game can get into by calls of the handler, from the start.\<close>

inductive reachable :: "app \<Rightarrow> bool" where
  start: "reachable initial_app"
| select: "reachable st \<Longrightarrow> reachable (handleSelectSquare rowIndex colIndex st)"

section \<open>Notions of the specification\<close>

text \<open>
  A log, newest move first, alternates from \<open>X\<close>: the oldest move is by \<open>X\<close>, the next by
  \<open>O\<close>, and so on; the move with \<open>n\<close> older moves behind it is by \<open>X\<close> exactly when \<open>n\<close>
  is even.
\<close>

fun alternating :: "turn list \<Rightarrow> bool" where
  "alternating [] = True"
| "alternating (t # ts) =
     (player t = (if even (length ts) then ''X'' else ''O'') \<and> alternating ts)"

text \<open>The cell at a coordinate of a board, as the program reads it (\<open>undefined\<close> outside).\<close>

definition cell_at :: "board \<Rightarrow> nat \<times> nat \<Rightarrow> cell" where
  "cell_at b p = (if fst p < length b then js_get (b ! fst p) (snd p) else Undefined)"

text \<open>A cell is non-empty when it holds a symbol.\<close>

fun is_symbol :: "cell \<Rightarrow> bool" where
  "is_symbol (Sym s) = True"
| "is_symbol Null = False"
| "is_symbol Undefined = False"

definition count_symbols :: "board \<Rightarrow> nat" where
  "count_symbols b = length (filter is_symbol (concat b))"

definition all_cells_filled :: "board \<Rightarrow> bool" where
  "all_cells_filled b = (\<forall>r \<in> {0..<3}. \<forall>c \<in> {0..<3}. is_symbol (cell_at b (r, c)))"

text \<open>Every move of the log lies on the 3 by 3 grid.\<close>

definition on_board :: "turn list \<Rightarrow> bool" where
  "on_board ts = (\<forall>t \<in> set ts. row (square t) < 3 \<and> col (square t) < 3)"

text \<open>The moves of a log at one coordinate, in the order of the log (newest first).\<close>

definition moves_at :: "square \<Rightarrow> turn list \<Rightarrow> turn list" where
  "moves_at sq ts = filter (\<lambda>t. square t = sq) ts"

text \<open>
  A line is complete when its three cells hold the same symbol, a symbol being a non-empty
  string; \<open>line_symbol\<close> is that symbol. \<open>matching\<close> lists the complete lines of a board in
  the order of the table.
\<close>

definition line_symbol :: "board \<Rightarrow> combination \<Rightarrow> string option" where
  "line_symbol b l =
     (case cell_at b (fst l) of
        Sym s \<Rightarrow>
          if s \<noteq> [] \<and> cell_at b (fst (snd l)) = Sym s \<and> cell_at b (snd (snd l)) = Sym s
          then Some s else None
      | Null \<Rightarrow> None
      | Undefined \<Rightarrow> None)"

definition matching :: "board \<Rightarrow> combination list" where
  "matching b = filter (\<lambda>l. line_symbol b l \<noteq> None) WINNING_COMBINATIONS"

subsection \<open>hasDraw\<close>

text \<open>
  Modelled from the spec: the draw test of the outcome evaluator. The program computes the
  flag \<open>hasDraw\<close> in \<open>App.jsx\<close>, which is not among the source files; the sources only
  use the flag (\<open>(winner || hasDraw) && <GameOver ... />\<close>) and mention it in a diagram.
  Section 4.4 of the specification gives the test: ``If no line matches, separately
  determine draw status: draw iff all 9 cells are non-empty and no line matched.''
\<close>

definition hasDraw :: "board \<Rightarrow> bool" where
  "hasDraw gameBoard = (all_cells_filled gameBoard \<and> matching gameBoard = [])"

section \<open>Auxiliary notions\<close>

text \<open>All three squares of a combination are in rows below \<open>n\<close>.\<close>

definition rows_below :: "nat \<Rightarrow> combination \<Rightarrow> bool" where
  "rows_below n l = (fst (fst l) < n \<and> fst (fst (snd l)) < n \<and> fst (snd (snd l)) < n)"

text \<open>One iteration of the replay loop, on the outcome so far.\<close>

primrec step :: "turn \<Rightarrow> error + board \<Rightarrow> error + board" where
  "step t (Inl e) = Inl e"
| "step t (Inr b) = assign b (row (square t)) (col (square t)) (Sym (player t))"

text \<open>The nine coordinates of the grid.\<close>

definition grid :: "square set" where
  "grid = (\<lambda>(r, c). \<lparr>row = r, col = c\<rparr>) ` ({0..<3} \<times> {0..<3})"

section \<open>Sample games\<close>

text \<open>Three logs of nine alternating moves at distinct coordinates, newest move first, and
  their boards: a draw, a log that ends with a row of \<open>X\<close> and a row of \<open>O\<close>, and a log
  that ends with a column and a diagonal of \<open>X\<close>.\<close>

abbreviation move :: "nat \<Rightarrow> nat \<Rightarrow> string \<Rightarrow> turn" where
  "move r c p \<equiv> \<lparr>square = \<lparr>row = r, col = c\<rparr>, player = p\<rparr>"

abbreviation drawn_game :: "turn list" where
  "drawn_game \<equiv>
     [move 2 2 ''X'', move 2 0 ''O'', move 1 0 ''X'', move 1 2 ''O'', move 2 1 ''X'',
      move 0 1 ''O'', move 0 2 ''X'', move 1 1 ''O'', move 0 0 ''X'']"

abbreviation drawn_board :: board where
  "drawn_board \<equiv>
     [[Sym ''X'', Sym ''O'', Sym ''X''],
      [Sym ''X'', Sym ''O'', Sym ''O''],
      [Sym ''O'', Sym ''X'', Sym ''X'']]"





section \<open>The active player\<close>

text \<open>
  Claim C3. For a move log that alternates symbols starting with \<open>X\<close> (newest first),
  \<open>deriveActivePlayer\<close> returns \<open>X\<close> when the log has an even number of moves and \<open>O\<close>
  when it has an odd number. This holds for logs of every length, so in particular for
  the lengths 0 to 9 of a game.
\<close>

theorem activePlayer_parity:
  assumes "alternating gameTurns"
  shows "deriveActivePlayer gameTurns = (if even (length gameTurns) then ''X'' else ''O'')"
proof (cases gameTurns)
  case Nil
  then show ?thesis by (simp add: deriveActivePlayer_def)
next
  case (Cons newest older)
  with assms show ?thesis by (auto simp: deriveActivePlayer_def)
qed

theorem activePlayer_parity_witness:
  "alternating [move 1 1 ''O'',
                move 0 0 ''X''] \<and>
   deriveActivePlayer [move 1 1 ''O'',
                       move 0 0 ''X''] = ''X''"
  using activePlayer_parity
    [of "[move 1 1 ''O'',
          move 0 0 ''X'']"]
  by simp

section \<open>Recording a move\<close>

lemma current_turns_handleSelectSquare:
  "current_turns (handleSelectSquare rowIndex colIndex st) =
     updatedTurns rowIndex colIndex (current_turns st)"
  by (simp add: current_turns_def handleSelectSquare_def Let_def)

lemma current_turns_initial: "current_turns initial_app = []"
  by (simp add: current_turns_def initial_app_def)

lemma alternating_updatedTurns:
  "alternating prevTurns \<Longrightarrow> alternating (updatedTurns rowIndex colIndex prevTurns)"
  by (cases prevTurns) (auto simp: updatedTurns_def Let_def deriveActivePlayer_def)

text \<open>
  Claim C8, as the program has it. Recording a move makes the state point to a new array
  whose contents are the new move followed by the previous log; the new move is at the
  requested coordinate and carries the symbol of the active player of the previous log. Every array that existed
  before the call, the previous log among them, has the contents it had: whoever holds the
  previous reference keeps reading the previous log.
\<close>

theorem record_prepends_original_untouched:
  assumes "gameTurns_state st < fresh st"
  shows "current_turns (handleSelectSquare rowIndex colIndex st) =
           \<lparr>square = \<lparr>row = rowIndex, col = colIndex\<rparr>,
            player = deriveActivePlayer (current_turns st)\<rparr> # current_turns st
       \<and> gameTurns_state (handleSelectSquare rowIndex colIndex st) \<noteq> gameTurns_state st
       \<and> arrays (handleSelectSquare rowIndex colIndex st) (gameTurns_state st) = current_turns st
       \<and> (\<forall>p < fresh st. arrays (handleSelectSquare rowIndex colIndex st) p = arrays st p)"
  using assms
  by (simp add: current_turns_def handleSelectSquare_def Let_def updatedTurns_def)

theorem record_prepends_original_untouched_witness:
  "gameTurns_state (handleSelectSquare 0 1 (handleSelectSquare 1 1 initial_app)) <
     fresh (handleSelectSquare 0 1 (handleSelectSquare 1 1 initial_app))
   \<and> current_turns (handleSelectSquare 0 1 (handleSelectSquare 1 1 initial_app)) =
       [move 0 1 ''O'', move 1 1 ''X'']
   \<and> current_turns
        (handleSelectSquare 2 2 (handleSelectSquare 0 1 (handleSelectSquare 1 1 initial_app))) =
       [move 2 2 ''X'', move 0 1 ''O'', move 1 1 ''X'']
   \<and> arrays
        (handleSelectSquare 2 2 (handleSelectSquare 0 1 (handleSelectSquare 1 1 initial_app)))
        (gameTurns_state (handleSelectSquare 0 1 (handleSelectSquare 1 1 initial_app))) =
       [move 0 1 ''O'', move 1 1 ''X'']"
proof -
  let ?st = "handleSelectSquare 0 1 (handleSelectSquare 1 1 initial_app)"
  have allocated: "gameTurns_state ?st < fresh ?st"
    by (simp add: handleSelectSquare_def Let_def initial_app_def)
  have log: "current_turns ?st = [move 0 1 ''O'', move 1 1 ''X'']"
    by (simp add: current_turns_handleSelectSquare updatedTurns_def Let_def
        current_turns_initial deriveActivePlayer_def)
  from record_prepends_original_untouched [OF allocated, of 2 2] allocated log
  show ?thesis by (simp add: deriveActivePlayer_def)
qed

text \<open>
  Claim C8 as stated, for every move, fails: the handler is given a coordinate only and
  derives the symbol itself. After \<open>X\<close> at (1, 1), a second move of \<open>X\<close> at (0, 0) cannot
  be recorded; the call for that coordinate records \<open>O\<close> there.
\<close>

theorem record_derives_symbol_counterexample:
  "current_turns (handleSelectSquare 1 1 initial_app) = [move 1 1 ''X'']
   \<and> current_turns (handleSelectSquare 0 0 (handleSelectSquare 1 1 initial_app)) =
       [move 0 0 ''O'', move 1 1 ''X'']
   \<and> current_turns (handleSelectSquare 0 0 (handleSelectSquare 1 1 initial_app)) \<noteq>
       move 0 0 ''X'' # current_turns (handleSelectSquare 1 1 initial_app)"
  by (simp add: current_turns_handleSelectSquare updatedTurns_def Let_def
      current_turns_initial deriveActivePlayer_def)

text \<open>
  Claim C9. The handler takes the symbol of the new move from \<open>deriveActivePlayer\<close> of the
  previous log, not from its caller. So the log of every state reached from the start of
  the game by calls of the handler alternates symbols beginning with \<open>X\<close>; a log that does
  not alternate is never produced.
\<close>

theorem handler_logs_alternate:
  "reachable st \<Longrightarrow> alternating (current_turns st)"
proof (induction rule: reachable.induct)
  case start
  show ?case by (simp add: current_turns_def initial_app_def)
next
  case (select st rowIndex colIndex)
  then show ?case
    by (simp add: current_turns_handleSelectSquare alternating_updatedTurns)
qed

theorem handler_logs_alternate_witness:
  "reachable (handleSelectSquare 0 1 (handleSelectSquare 1 1 initial_app))
   \<and> alternating (current_turns (handleSelectSquare 0 1 (handleSelectSquare 1 1 initial_app)))
   \<and> current_turns (handleSelectSquare 0 1 (handleSelectSquare 1 1 initial_app)) =
       [move 0 1 ''O'',
        move 1 1 ''X'']"
proof -
  have r: "reachable (handleSelectSquare 0 1 (handleSelectSquare 1 1 initial_app))"
    by (intro reachable.select reachable.start)
  have "current_turns (handleSelectSquare 0 1 (handleSelectSquare 1 1 initial_app)) =
       [move 0 1 ''O'',
        move 1 1 ''X'']"
    by (simp add: current_turns_handleSelectSquare updatedTurns_def Let_def
        current_turns_initial deriveActivePlayer_def)
  with r handler_logs_alternate [OF r] show ?thesis by simp
qed

section \<open>The winner\<close>

lemma read_square_cell_at:
  "fst p < length b \<Longrightarrow> read_square b p = Inr (cell_at b p)"
  by (simp add: read_square_def cell_at_def)

lemma check_combination_line_symbol:
  assumes "rows_below (length b) l"
  shows "check_combination b players l winner =
           Inr (case line_symbol b l of None \<Rightarrow> winner | Some s \<Rightarrow> players s)"
  using assms
  by (cases "cell_at b (fst l)")
     (auto simp: check_combination_def read_square_cell_at line_symbol_def rows_below_def)

lemma scan_last_match:
  assumes "\<forall>l \<in> set ls. rows_below (length b) l"
  shows "scan b players ls winner =
           Inr (case filter (\<lambda>l. line_symbol b l \<noteq> None) ls of
                  [] \<Rightarrow> winner
                | m # ms \<Rightarrow> Option.bind (line_symbol b (last (m # ms))) players)"
  using assms
proof (induction ls arbitrary: winner)
  case Nil
  show ?case by simp
next
  case (Cons l ls)
  have l: "check_combination b players l winner =
           Inr (case line_symbol b l of None \<Rightarrow> winner | Some s \<Rightarrow> players s)"
    using Cons.prems by (intro check_combination_line_symbol) simp
  have rest: "\<forall>l \<in> set ls. rows_below (length b) l" using Cons.prems by simp
  show ?case
    by (cases "line_symbol b l"; cases "filter (\<lambda>l. line_symbol b l \<noteq> None) ls")
       (simp_all add: l Cons.IH [OF rest])
qed

lemma rows_below_table: "\<forall>l \<in> set WINNING_COMBINATIONS. rows_below 3 l"
  by (simp add: WINNING_COMBINATIONS_def rows_below_def)

lemma deriveWinner_last_match:
  assumes "3 \<le> length b"
  shows "deriveWinner b players =
           Inr (case matching b of
                  [] \<Rightarrow> None
                | m # ms \<Rightarrow> Option.bind (line_symbol b (last (m # ms))) players)"
proof -
  have "\<forall>l \<in> set WINNING_COMBINATIONS. rows_below (length b) l"
    using rows_below_table assms by (auto simp: rows_below_def)
  then show ?thesis
    unfolding deriveWinner_def matching_def by (rule scan_last_match)
qed

lemma deriveWinner_winning_symbol:
  assumes "3 \<le> length b" "matching b \<noteq> []" "line_symbol b (last (matching b)) = Some s"
  shows "deriveWinner b players = Inr (players s)"
  using assms(2,3) by (cases "matching b") (simp_all add: deriveWinner_last_match [OF assms(1)])

lemma deriveWinner_no_line:
  assumes "3 \<le> length b" "matching b = []"
  shows "deriveWinner b players = Inr None"
  using assms(2) by (simp add: deriveWinner_last_match [OF assms(1)])

lemma last_matching_complete:
  assumes "matching b \<noteq> []"
  shows "\<exists>s. line_symbol b (last (matching b)) = Some s"
proof -
  from assms have "last (matching b) \<in> set (matching b)" by (rule last_in_set)
  then show ?thesis by (auto simp: matching_def)
qed

lemma matching_nonempty:
  "l \<in> set WINNING_COMBINATIONS \<Longrightarrow> line_symbol b l = Some s \<Longrightarrow> matching b \<noteq> []"
  by (auto simp: matching_def filter_empty_conv)

text \<open>
  Claim C2. The scan does not stop at a match: on a board with at least the three rows
  the table refers to, where two lines of the table are complete with different symbols,
  the winner returned is the registry entry for the symbol of the last complete line in
  the order of the table (rows 0 to 2, columns 0 to 2, then the two diagonals).
\<close>

theorem last_matching_line_wins:
  assumes "3 \<le> length b"
      and "l1 \<in> set WINNING_COMBINATIONS" "l2 \<in> set WINNING_COMBINATIONS"
      and "line_symbol b l1 = Some s1" "line_symbol b l2 = Some s2" "s1 \<noteq> s2"
  shows "\<exists>s. line_symbol b (last (matching b)) = Some s \<and>
             deriveWinner b players = Inr (players s)"
proof -
  have ne: "matching b \<noteq> []" using assms(2,4) by (rule matching_nonempty)
  then obtain s where s: "line_symbol b (last (matching b)) = Some s"
    using last_matching_complete by blast
  with assms(1) ne have "deriveWinner b players = Inr (players s)"
    by (rule deriveWinner_winning_symbol)
  with s show ?thesis by blast
qed

theorem last_matching_line_wins_witness:
  "3 \<le> length [[Sym ''O'', Sym ''O'', Sym ''O''],
                [Null, Null, Null],
                [Sym ''X'', Sym ''X'', Sym ''X'']]
   \<and> ((0, 0), (0, 1), (0, 2)) \<in> set WINNING_COMBINATIONS
   \<and> ((2, 0), (2, 1), (2, 2)) \<in> set WINNING_COMBINATIONS
   \<and> line_symbol [[Sym ''O'', Sym ''O'', Sym ''O''],
                   [Null, Null, Null],
                   [Sym ''X'', Sym ''X'', Sym ''X'']] ((0, 0), (0, 1), (0, 2)) = Some ''O''
   \<and> line_symbol [[Sym ''O'', Sym ''O'', Sym ''O''],
                   [Null, Null, Null],
                   [Sym ''X'', Sym ''X'', Sym ''X'']] ((2, 0), (2, 1), (2, 2)) = Some ''X''
   \<and> ''O'' \<noteq> ''X''
   \<and> deriveWinner [[Sym ''O'', Sym ''O'', Sym ''O''],
                    [Null, Null, Null],
                    [Sym ''X'', Sym ''X'', Sym ''X'']]
                   [''X'' \<mapsto> ''Player 1'', ''O'' \<mapsto> ''Player 2''] = Inr (Some ''Player 1'')"
  using last_matching_line_wins
    [of "[[Sym ''O'', Sym ''O'', Sym ''O''],
          [Null, Null, Null],
          [Sym ''X'', Sym ''X'', Sym ''X'']]"
        "((0, 0), (0, 1), (0, 2))" "((2, 0), (2, 1), (2, 2))" "''O''" "''X''"
        "[''X'' \<mapsto> ''Player 1'', ''O'' \<mapsto> ''Player 2'']"]
  by (simp add: WINNING_COMBINATIONS_def line_symbol_def cell_at_def js_get_def matching_def)

text \<open>
  Claim C7. The name is looked up in the registry at each call. On a board with a complete
  line, \<open>deriveWinner\<close> returns for each registry the name that registry gives to the
  winning symbol (the symbol of the last complete line); two registries that differ at
  that symbol, such as a registry before and after a rename, give different results on
  the same board.
\<close>

theorem winner_name_read_from_registry:
  assumes "3 \<le> length b" "matching b \<noteq> []"
      and "line_symbol b (last (matching b)) = Some s"
      and "players1 s \<noteq> players2 s"
  shows "deriveWinner b players1 = Inr (players1 s)
       \<and> deriveWinner b players2 = Inr (players2 s)
       \<and> deriveWinner b players1 \<noteq> deriveWinner b players2"
  using assms(4) by (simp add: deriveWinner_winning_symbol [OF assms(1,2,3)])

theorem winner_name_read_from_registry_witness:
  "3 \<le> length [[Sym ''X'', Sym ''X'', Sym ''X''],
                [Null, Sym ''O'', Null],
                [Sym ''O'', Null, Null]]
   \<and> matching [[Sym ''X'', Sym ''X'', Sym ''X''],
                [Null, Sym ''O'', Null],
                [Sym ''O'', Null, Null]] = [((0, 0), (0, 1), (0, 2))]
   \<and> deriveWinner [[Sym ''X'', Sym ''X'', Sym ''X''],
                    [Null, Sym ''O'', Null],
                    [Sym ''O'', Null, Null]]
                   [''X'' \<mapsto> ''Player 1'', ''O'' \<mapsto> ''Player 2''] = Inr (Some ''Player 1'')
   \<and> deriveWinner [[Sym ''X'', Sym ''X'', Sym ''X''],
                    [Null, Sym ''O'', Null],
                    [Sym ''O'', Null, Null]]
                   ([''X'' \<mapsto> ''Player 1'', ''O'' \<mapsto> ''Player 2''](''X'' \<mapsto> ''Max'')) =
       Inr (Some ''Max'')"
proof -
  let ?b = "[[Sym ''X'', Sym ''X'', Sym ''X''],
             [Null, Sym ''O'', Null],
             [Sym ''O'', Null, Null]]"
  let ?p = "[''X'' \<mapsto> ''Player 1'', ''O'' \<mapsto> ''Player 2'']"
  have m: "matching ?b = [((0, 0), (0, 1), (0, 2))]"
    by (simp add: matching_def WINNING_COMBINATIONS_def line_symbol_def cell_at_def js_get_def)
  have h: "3 \<le> length ?b" "matching ?b \<noteq> []"
    "line_symbol ?b (last (matching ?b)) = Some ''X''"
    "?p ''X'' \<noteq> (?p(''X'' \<mapsto> ''Max'')) ''X''"
    by (simp_all add: m) (simp add: line_symbol_def cell_at_def js_get_def)
  from winner_name_read_from_registry [of ?b "''X''" ?p "?p(''X'' \<mapsto> ''Max'')", OF h] m
  show ?thesis by simp
qed

section \<open>The board\<close>

lemma js_get_js_set: "js_get (js_set xs i v) j = (if j = i then v else js_get xs j)"
  by (auto simp: js_get_def js_set_def nth_append)

lemma length_js_set: "length (js_set xs i v) = max (length xs) (Suc i)"
  by (auto simp: js_set_def)

lemma js_array_eqI:
  assumes "length xs = length ys" "\<And>j. js_get xs j = js_get ys j"
  shows "xs = ys"
proof (rule nth_equalityI)
  show "length xs = length ys" by fact
next
  fix i assume "i < length xs"
  with assms(1) assms(2) [of i] show "xs ! i = ys ! i" by (simp add: js_get_def)
qed

lemma js_set_commute:
  "i \<noteq> j \<Longrightarrow> js_set (js_set xs i v) j w = js_set (js_set xs j w) i v"
  by (rule js_array_eqI) (auto simp: length_js_set js_get_js_set)

lemma fold_step_Inl: "fold step ts (Inl e) = Inl e"
  by (induction ts) simp_all

lemma replay_fold: "replay ts b = fold step ts (Inr b)"
  by (induction ts arbitrary: b) (simp_all add: fold_step_Inl split: sum.splits)

lemma assign_commute:
  assumes "(r, c) \<noteq> (r', c')"
  shows "(case assign b r c v of Inl e \<Rightarrow> Inl e | Inr b1 \<Rightarrow> assign b1 r' c' w) =
         (case assign b r' c' w of Inl e \<Rightarrow> Inl e | Inr b1 \<Rightarrow> assign b1 r c v)"
proof (cases "r < length b \<and> r' < length b")
  case False
  then show ?thesis by (auto simp: assign_def)
next
  case True
  show ?thesis
  proof (cases "r = r'")
    case True
    with assms have "c \<noteq> c'" by simp
    with True \<open>r < length b \<and> r' < length b\<close> show ?thesis
      by (simp add: assign_def js_set_commute)
  next
    case False
    with \<open>r < length b \<and> r' < length b\<close> show ?thesis
      by (simp add: assign_def list_update_swap)
  qed
qed

lemma step_commute:
  assumes "square t \<noteq> square u"
  shows "step t (step u st) = step u (step t st)"
proof (cases st)
  case (Inl e)
  then show ?thesis by simp
next
  case (Inr b)
  have ne: "(row (square u), col (square u)) \<noteq> (row (square t), col (square t))"
    using assms by (cases "square t"; cases "square u") auto
  have "step t (step u (Inr b)) =
        (case assign b (row (square u)) (col (square u)) (Sym (player u)) of
           Inl e \<Rightarrow> Inl e
         | Inr b1 \<Rightarrow> assign b1 (row (square t)) (col (square t)) (Sym (player t)))"
    by (simp split: sum.splits)
  also have "\<dots> =
        (case assign b (row (square t)) (col (square t)) (Sym (player t)) of
           Inl e \<Rightarrow> Inl e
         | Inr b1 \<Rightarrow> assign b1 (row (square u)) (col (square u)) (Sym (player u)))"
    by (rule assign_commute [OF ne])
  also have "\<dots> = step u (step t (Inr b))"
    by (simp split: sum.splits)
  finally show ?thesis using Inr by simp
qed

lemma replay_permutation:
  assumes "distinct (map square ts)" "mset ts' = mset ts"
  shows "replay ts' b = replay ts b"
proof -
  have inj: "inj_on square (set ts)" using assms(1) by (simp add: distinct_map)
  have "fold step ts = fold step ts'"
  proof (rule fold_multiset_equiv)
    fix t u assume "t \<in> set ts" "u \<in> set ts"
    show "step t \<circ> step u = step u \<circ> step t"
    proof (cases "t = u")
      case True then show ?thesis by simp
    next
      case False
      with inj \<open>t \<in> set ts\<close> \<open>u \<in> set ts\<close> have "square t \<noteq> square u"
        by (auto dest: inj_onD)
      then show ?thesis by (auto simp: fun_eq_iff step_commute)
    qed
  next
    show "mset ts = mset ts'" using assms(2) by simp
  qed
  then show ?thesis by (simp add: replay_fold)
qed

lemma assign_Inr: "r < length b \<Longrightarrow> assign b r c v = Inr (b[r := js_set (b ! r) c v])"
  by (simp add: assign_def)

lemma replay_length: "replay ts b = Inr b' \<Longrightarrow> length b' = length b"
proof (induction ts arbitrary: b)
  case Nil then show ?case by simp
next
  case (Cons t ts)
  then show ?case by (auto simp: assign_def split: if_splits)
qed

lemma replay_defined:
  "\<forall>t \<in> set ts. row (square t) < length b \<Longrightarrow> \<exists>b'. replay ts b = Inr b'"
proof (induction ts arbitrary: b)
  case Nil show ?case by simp
next
  case (Cons t ts)
  then show ?case by (simp add: assign_Inr)
qed

lemma replay_cell:
  assumes "replay ts b = Inr b'"
  shows "cell_at b' (r, c) =
           (case moves_at \<lparr>row = r, col = c\<rparr> ts of
              [] \<Rightarrow> cell_at b (r, c)
            | m # ms \<Rightarrow> Sym (player (last (m # ms))))"
  using assms
proof (induction ts arbitrary: b)
  case Nil
  then show ?case by (simp add: moves_at_def)
next
  case (Cons t ts)
  from Cons.prems have inrange: "row (square t) < length b"
    by (auto simp: assign_def split: if_splits)
  define b1 where "b1 = b[row (square t) := js_set (b ! row (square t)) (col (square t)) (Sym (player t))]"
  from Cons.prems inrange have rest: "replay ts b1 = Inr b'"
    by (simp add: assign_Inr b1_def)
  have b1: "cell_at b1 (r, c) =
              (if square t = \<lparr>row = r, col = c\<rparr> then Sym (player t) else cell_at b (r, c))"
    using inrange by (cases "square t") (auto simp: b1_def cell_at_def js_get_js_set nth_list_update)
  show ?case
    using Cons.IH [OF rest] b1
    by (cases "moves_at \<lparr>row = r, col = c\<rparr> ts") (auto simp: moves_at_def)
qed




lemma filter_length_update:
  assumes "i < length xs" "\<not> P (xs ! i)" "P v"
  shows "length (filter P (xs[i := v])) = Suc (length (filter P xs))"
proof -
  have "xs = take i xs @ xs ! i # drop (Suc i) xs"
    using assms(1) by (rule id_take_nth_drop)
  then have "length (filter P xs) = length (filter P (take i xs)) + length (filter P (drop (Suc i) xs))"
    using assms(2) by (metis filter.simps(2) filter_append length_append)
  moreover have "xs[i := v] = take i xs @ v # drop (Suc i) xs"
    using assms(1) by (rule upd_conv_take_nth_drop)
  ultimately show ?thesis using assms(3) by simp
qed

lemma count_symbols_sum:
  "count_symbols b = sum_list (map (\<lambda>r. length (filter is_symbol r)) b)"
  unfolding count_symbols_def by (induction b) simp_all

lemma count_symbols_update:
  assumes "r < length b" "c < length (b ! r)" "\<not> is_symbol (b ! r ! c)"
  shows "count_symbols (b[r := (b ! r)[c := Sym s]]) = Suc (count_symbols b)"
proof -
  let ?f = "\<lambda>r. length (filter is_symbol r)"
  have row: "?f ((b ! r)[c := Sym s]) = Suc (?f (b ! r))"
    using assms(2,3) by (intro filter_length_update) simp_all
  have "count_symbols (b[r := (b ! r)[c := Sym s]]) = sum_list ((map ?f b)[r := ?f ((b ! r)[c := Sym s])])"
    by (simp add: count_symbols_sum map_update)
  also have "\<dots> = sum_list (map ?f b) + ?f ((b ! r)[c := Sym s]) - map ?f b ! r"
    using assms(1) by (simp add: sum_list_update)
  also have "\<dots> = Suc (sum_list (map ?f b))"
    using assms(1) row by simp
  finally show ?thesis by (simp add: count_symbols_sum)
qed

lemma replay_count:
  assumes "distinct (map square ts)"
      and "\<forall>t \<in> set ts. row (square t) < length b \<and>
                          col (square t) < length (b ! row (square t)) \<and>
                          \<not> is_symbol (b ! row (square t) ! col (square t))"
  shows "\<exists>b'. replay ts b = Inr b' \<and> map length b' = map length b \<and>
              count_symbols b' = count_symbols b + length ts"
  using assms
proof (induction ts arbitrary: b)
  case Nil
  show ?case by simp
next
  case (Cons t ts)
  let ?r = "row (square t)" and ?c = "col (square t)"
  define b1 where "b1 = b[?r := (b ! ?r)[?c := Sym (player t)]]"
  have t: "?r < length b" "?c < length (b ! ?r)" "\<not> is_symbol (b ! ?r ! ?c)"
    using Cons.prems(2) by simp_all
  have step: "assign b ?r ?c (Sym (player t)) = Inr b1"
    using t by (simp add: assign_def js_set_def b1_def)
  have shape: "map length b1 = map length b"
    using t(1) by (simp add: b1_def map_update list_update_same_conv)
  have count: "count_symbols b1 = Suc (count_symbols b)"
    unfolding b1_def using t by (rule count_symbols_update)
  have len: "length b1 = length b" by (simp add: b1_def)
  have rowlen: "length (b1 ! i) = length (b ! i)" if "i < length b" for i
    using that by (cases "i = row (square t)") (simp_all add: b1_def)
  have "\<forall>u \<in> set ts. row (square u) < length b1 \<and>
                       col (square u) < length (b1 ! row (square u)) \<and>
                       \<not> is_symbol (b1 ! row (square u) ! col (square u))"
  proof
    fix u assume u: "u \<in> set ts"
    then have old: "row (square u) < length b" "col (square u) < length (b ! row (square u))"
      "\<not> is_symbol (b ! row (square u) ! col (square u))"
      using Cons.prems(2) by simp_all
    have "square u \<in> square ` set ts" using u by (rule imageI)
    then have "square u \<noteq> square t" using Cons.prems(1) by auto
    then have "row (square u) \<noteq> ?r \<or> col (square u) \<noteq> ?c"
      by (cases "square u"; cases "square t") auto
    then have "b1 ! row (square u) ! col (square u) = b ! row (square u) ! col (square u)"
      using old(1) by (cases "row (square u) = row (square t)") (auto simp: b1_def)
    with old show "row (square u) < length b1 \<and>
                       col (square u) < length (b1 ! row (square u)) \<and>
                       \<not> is_symbol (b1 ! row (square u) ! col (square u))"
      by (simp add: len rowlen)
  qed
  with Cons.IH [of b1] Cons.prems(1)
  obtain b' where "replay ts b1 = Inr b'" "map length b' = map length b1"
      "count_symbols b' = count_symbols b1 + length ts"
    by auto
  then show ?case using step shape count by simp
qed

lemma moves_at_distinct:
  "distinct (map square ts) \<Longrightarrow> t \<in> set ts \<Longrightarrow> moves_at (square t) ts = [t]"
  unfolding moves_at_def
proof (induction ts)
  case Nil then show ?case by simp
next
  case (Cons u ts)
  show ?case
  proof (cases "t = u")
    case True
    have "square x \<noteq> square u" if "x \<in> set ts" for x
    proof -
      have "square x \<in> square ` set ts" using that by (rule imageI)
      then show ?thesis using Cons.prems(1) by auto
    qed
    then have "filter (\<lambda>x. square x = square u) ts = []"
      by (simp add: filter_empty_conv)
    with True show ?thesis by simp
  next
    case False
    with Cons.prems have "t \<in> set ts" "square u \<noteq> square t" by auto
    with Cons show ?thesis by simp
  qed
qed

lemma moves_at_empty: "moves_at sq ts = [] \<longleftrightarrow> sq \<notin> square ` set ts"
  by (auto simp: moves_at_def filter_empty_conv)

lemma initial_cell: "cell_at INITIAL_GAME_BOARD (r, c) = (if r < 3 \<and> c < 3 then Null else Undefined)"
proof -
  have "r < 3 \<Longrightarrow> [[Null, Null, Null], [Null, Null, Null], [Null, Null, Null]] ! r = [Null, Null, Null]"
    by (cases r rule: less_Suc_eq [THEN iffD1, elim_format]) (auto simp: less_Suc_eq numeral_3_eq_3)
  moreover have "c < 3 \<Longrightarrow> [Null, Null, Null] ! c = Null"
    by (auto simp: less_Suc_eq numeral_3_eq_3)
  ultimately show ?thesis
    by (auto simp: cell_at_def INITIAL_GAME_BOARD_def js_get_def)
qed

lemma deriveGameBoard_replay: "deriveGameBoard ts = replay ts INITIAL_GAME_BOARD"
  by (simp add: deriveGameBoard_def)

lemma length_INITIAL_GAME_BOARD: "length INITIAL_GAME_BOARD = 3"
  by (simp add: INITIAL_GAME_BOARD_def)

lemma deriveGameBoard_rows:
  "deriveGameBoard ts = Inr b \<Longrightarrow> length b = 3"
  by (auto simp: deriveGameBoard_replay length_INITIAL_GAME_BOARD dest: replay_length)

lemma deriveGameBoard_defined:
  assumes "\<forall>t \<in> set ts. row (square t) < 3"
  shows "\<exists>b. deriveGameBoard ts = Inr b"
  unfolding deriveGameBoard_replay
  by (rule replay_defined) (use assms in \<open>simp add: length_INITIAL_GAME_BOARD\<close>)

lemma deriveGameBoard_cell:
  assumes "deriveGameBoard ts = Inr b"
  shows "cell_at b (r, c) =
           (case moves_at \<lparr>row = r, col = c\<rparr> ts of
              [] \<Rightarrow> if r < 3 \<and> c < 3 then Null else Undefined
            | m # ms \<Rightarrow> Sym (player (last (m # ms))))"
  using replay_cell [OF assms [unfolded deriveGameBoard_replay], of r c]
  by (cases "moves_at \<lparr>row = r, col = c\<rparr> ts") (simp_all add: initial_cell)

lemma deriveGameBoard_count:
  assumes "distinct (map square ts)" "on_board ts"
  shows "\<exists>b. deriveGameBoard ts = Inr b \<and> map length b = [3, 3, 3] \<and>
             count_symbols b = length ts"
proof -
  have cells: "\<not> is_symbol (INITIAL_GAME_BOARD ! r ! c)" if "r < 3" "c < 3" for r c
    using initial_cell [of r c] that
    by (simp add: cell_at_def js_get_def INITIAL_GAME_BOARD_def less_Suc_eq numeral_3_eq_3 split: if_splits)
  have rows: "length (INITIAL_GAME_BOARD ! r) = 3" if "r < 3" for r
    using that by (auto simp: INITIAL_GAME_BOARD_def less_Suc_eq numeral_3_eq_3)
  have "\<forall>t \<in> set ts. row (square t) < length INITIAL_GAME_BOARD \<and>
          col (square t) < length (INITIAL_GAME_BOARD ! row (square t)) \<and>
          \<not> is_symbol (INITIAL_GAME_BOARD ! row (square t) ! col (square t))"
    using assms(2) cells rows by (simp add: on_board_def length_INITIAL_GAME_BOARD)
  from replay_count [OF assms(1) this]
  show ?thesis
    by (auto simp: deriveGameBoard_replay) (simp_all add: INITIAL_GAME_BOARD_def count_symbols_def)
qed

text \<open>
  Claim C5. When no two moves of a log share a coordinate, every permutation of the log
  gives the same result of \<open>deriveGameBoard\<close>: the order of the replay is irrelevant.
\<close>

theorem replay_order_irrelevant:
  assumes "distinct (map square ts)" "mset ts' = mset ts"
  shows "deriveGameBoard ts' = deriveGameBoard ts"
  using assms unfolding deriveGameBoard_def by (rule replay_permutation)

theorem replay_order_irrelevant_witness:
  "distinct (map square
     [move 0 2 ''X'',
      move 1 1 ''O'',
      move 2 0 ''X''])
   \<and> mset [move 2 0 ''X'',
            move 0 2 ''X'',
            move 1 1 ''O''] =
       mset [move 0 2 ''X'',
            move 1 1 ''O'',
            move 2 0 ''X'']
   \<and> deriveGameBoard
           [move 2 0 ''X'',
            move 0 2 ''X'',
            move 1 1 ''O''] =
       deriveGameBoard
           [move 0 2 ''X'',
            move 1 1 ''O'',
            move 2 0 ''X'']"
proof -
  have d: "distinct (map square
     [move 0 2 ''X'',
      move 1 1 ''O'',
      move 2 0 ''X''])"
    by simp
  have m: "mset [move 2 0 ''X'',
            move 0 2 ''X'',
            move 1 1 ''O''] =
       mset [move 0 2 ''X'',
            move 1 1 ''O'',
            move 2 0 ''X'']"
    by (simp add: add_mset_commute)
  from d m replay_order_irrelevant [OF d m] show ?thesis by blast
qed

text \<open>
  Claim C4. For a log of moves on the grid with no coordinate used twice,
  \<open>deriveGameBoard\<close> returns a board of three rows of three cells in which as many cells
  hold a symbol as the log has moves; the cell at the coordinate of each move holds the
  symbol of that move, and every other cell of the grid is \<open>null\<close>.
\<close>

theorem board_holds_exactly_the_moves:
  assumes "distinct (map square ts)" "on_board ts"
  shows "\<exists>b. deriveGameBoard ts = Inr b
           \<and> map length b = [3, 3, 3]
           \<and> count_symbols b = length ts
           \<and> (\<forall>t \<in> set ts. cell_at b (row (square t), col (square t)) = Sym (player t))
           \<and> (\<forall>r \<in> {0..<3}. \<forall>c \<in> {0..<3}.
                \<lparr>row = r, col = c\<rparr> \<notin> square ` set ts \<longrightarrow> cell_at b (r, c) = Null)"
proof -
  from deriveGameBoard_count [OF assms]
  obtain b where b: "deriveGameBoard ts = Inr b" and shape: "map length b = [3, 3, 3]"
    and count: "count_symbols b = length ts" by auto
  have moved: "cell_at b (row (square t), col (square t)) = Sym (player t)" if "t \<in> set ts" for t
  proof -
    have sq: "\<lparr>row = row (square t), col = col (square t)\<rparr> = square t" by simp
    have "moves_at \<lparr>row = row (square t), col = col (square t)\<rparr> ts = [t]"
      unfolding sq using assms(1) that by (rule moves_at_distinct)
    then show ?thesis
      using deriveGameBoard_cell [OF b, of "row (square t)" "col (square t)"] by simp
  qed
  have other: "cell_at b (r, c) = Null"
    if "r < 3" "c < 3" "\<lparr>row = r, col = c\<rparr> \<notin> square ` set ts" for r c
  proof -
    have "moves_at \<lparr>row = r, col = c\<rparr> ts = []" using that(3) by (simp add: moves_at_empty)
    then show ?thesis using deriveGameBoard_cell [OF b, of r c] that(1,2) by simp
  qed
  from b shape count moved other show ?thesis by auto
qed

theorem board_holds_exactly_the_moves_witness:
  "distinct (map square
     [move 0 2 ''X'',
      move 1 1 ''O'',
      move 0 1 ''X'',
      move 2 0 ''O'',
      move 0 0 ''X''])
   \<and> on_board
     [move 0 2 ''X'',
      move 1 1 ''O'',
      move 0 1 ''X'',
      move 2 0 ''O'',
      move 0 0 ''X'']
   \<and> deriveGameBoard
     [move 0 2 ''X'',
      move 1 1 ''O'',
      move 0 1 ''X'',
      move 2 0 ''O'',
      move 0 0 ''X''] =
       Inr [[Sym ''X'', Sym ''X'', Sym ''X''], [Null, Sym ''O'', Null], [Sym ''O'', Null, Null]]
   \<and> count_symbols
       [[Sym ''X'', Sym ''X'', Sym ''X''], [Null, Sym ''O'', Null], [Sym ''O'', Null, Null]] = 5"
  using board_holds_exactly_the_moves
    [of "[move 0 2 ''X'',
      move 1 1 ''O'',
      move 0 1 ''X'',
      move 2 0 ''O'',
      move 0 0 ''X'']"]
  by (simp add: on_board_def deriveGameBoard_def INITIAL_GAME_BOARD_def assign_def js_set_def
      count_symbols_def)

text \<open>
  Claim C1, as the program has it. The replay loop runs over the log from its first entry,
  the newest move, to its last, the oldest, and later assignments overwrite earlier ones.
  So when a log (with rows on the board) holds two moves at one coordinate and no older
  move there, the cell holds the symbol of the older of the two, not of the newer.
\<close>

theorem oldest_move_keeps_cell:
  assumes "ts = newer @ new # between @ old # older"
      and "square new = square old"
      and "\<forall>t \<in> set older. square t \<noteq> square old"
      and "\<forall>t \<in> set ts. row (square t) < 3"
  shows "\<exists>b. deriveGameBoard ts = Inr b \<and>
             cell_at b (row (square old), col (square old)) = Sym (player old)"
proof -
  from deriveGameBoard_defined [OF assms(4)]
  obtain b where b: "deriveGameBoard ts = Inr b" ..
  have sq: "\<lparr>row = row (square old), col = col (square old)\<rparr> = square old" by simp
  have "filter (\<lambda>t. square t = square old) older = []"
    using assms(3) by (simp add: filter_empty_conv)
  then have "moves_at (square old) ts =
               filter (\<lambda>t. square t = square old) newer @ new #
               filter (\<lambda>t. square t = square old) between @ [old]"
    by (simp add: moves_at_def assms(1,2))
  then have "\<exists>m ms. moves_at (square old) ts = m # ms \<and> last (m # ms) = old"
    by (cases "filter (\<lambda>t. square t = square old) newer") auto
  then have "cell_at b (row (square old), col (square old)) = Sym (player old)"
    using deriveGameBoard_cell [OF b, of "row (square old)" "col (square old)"]
    by (auto simp: sq)
  with b show ?thesis by blast
qed

theorem oldest_move_keeps_cell_witness:
  "deriveGameBoard [move 1 1 ''X'',
                    move 0 0 ''O'',
                    move 0 0 ''X''] =
     Inr [[Sym ''X'', Null, Null], [Null, Sym ''X'', Null], [Null, Null, Null]]
   \<and> cell_at [[Sym ''X'', Null, Null], [Null, Sym ''X'', Null], [Null, Null, Null]] (0, 0) =
       Sym (player (move 0 0 ''X''))"
  using oldest_move_keeps_cell
    [of "[move 1 1 ''X'',
          move 0 0 ''O'',
          move 0 0 ''X'']"
        "[move 1 1 ''X'']"
        "move 0 0 ''O''"
        "[]"
        "move 0 0 ''X''"
        "[]"]
  by (simp add: deriveGameBoard_def INITIAL_GAME_BOARD_def assign_def js_set_def
      cell_at_def js_get_def)

text \<open>
  Claim C1 as stated, with the newest move winning the cell, fails: after \<open>X\<close> and then
  \<open>O\<close> at coordinate (0, 0) the cell holds \<open>X\<close>.
\<close>

theorem newest_move_overwritten_counterexample:
  "deriveGameBoard [move 0 0 ''O'',
                    move 0 0 ''X''] =
     Inr [[Sym ''X'', Null, Null], [Null, Null, Null], [Null, Null, Null]]
   \<and> cell_at [[Sym ''X'', Null, Null], [Null, Null, Null], [Null, Null, Null]] (0, 0) \<noteq>
       Sym (player (move 0 0 ''O''))"
  by (simp add: deriveGameBoard_def INITIAL_GAME_BOARD_def assign_def js_set_def
      cell_at_def js_get_def)

section \<open>The outcome of a game\<close>

lemma grid_mem: "\<lparr>row = r, col = c\<rparr> \<in> grid \<longleftrightarrow> r < 3 \<and> c < 3"
  by (auto simp: grid_def)

lemma card_grid: "card grid = 9"
proof -
  have "inj_on (\<lambda>(r, c). \<lparr>row = r, col = c\<rparr>) ({0..<3} \<times> {0..<3})"
    by (auto simp: inj_on_def)
  then have "card grid = card ({0..<3::nat} \<times> {0..<3::nat})"
    unfolding grid_def by (rule card_image)
  then show ?thesis by simp
qed

lemma finite_grid: "finite grid"
  by (simp add: grid_def)

lemma on_board_grid: "on_board ts \<Longrightarrow> square ` set ts \<subseteq> grid"
proof
  fix sq assume "on_board ts" "sq \<in> square ` set ts"
  then have "row sq < 3 \<and> col sq < 3" by (auto simp: on_board_def)
  then have "\<lparr>row = row sq, col = col sq\<rparr> \<in> grid" by (simp add: grid_mem)
  moreover have "\<lparr>row = row sq, col = col sq\<rparr> = sq" by simp
  ultimately show "sq \<in> grid" by (simp only:)
qed

lemma filled_cell:
  assumes "deriveGameBoard ts = Inr b"
  shows "is_symbol (cell_at b (r, c)) \<longleftrightarrow> \<lparr>row = r, col = c\<rparr> \<in> square ` set ts"
  using deriveGameBoard_cell [OF assms, of r c] moves_at_empty [of "\<lparr>row = r, col = c\<rparr>" ts]
  by (cases "moves_at \<lparr>row = r, col = c\<rparr> ts") auto

lemma all_cells_filled_grid:
  assumes "deriveGameBoard ts = Inr b"
  shows "all_cells_filled b \<longleftrightarrow> grid \<subseteq> square ` set ts"
proof
  assume full: "all_cells_filled b"
  show "grid \<subseteq> square ` set ts"
  proof
    fix sq assume "sq \<in> grid"
    then obtain r c where sq: "sq = \<lparr>row = r, col = c\<rparr>" and rc: "r < 3" "c < 3"
      by (auto simp: grid_def)
    with full have "is_symbol (cell_at b (r, c))" by (simp add: all_cells_filled_def)
    then show "sq \<in> square ` set ts" by (simp add: filled_cell [OF assms] sq)
  qed
next
  assume sub: "grid \<subseteq> square ` set ts"
  show "all_cells_filled b"
    unfolding all_cells_filled_def
  proof (intro ballI)
    fix r c :: nat assume "r \<in> {0..<3}" "c \<in> {0..<3}"
    then have "\<lparr>row = r, col = c\<rparr> \<in> grid" by (simp add: grid_mem)
    with sub show "is_symbol (cell_at b (r, c))" by (auto simp: filled_cell [OF assms])
  qed
qed

lemma full_iff_nine_moves:
  assumes "distinct (map square ts)" "on_board ts" "deriveGameBoard ts = Inr b"
  shows "all_cells_filled b \<longleftrightarrow> length ts = 9"
proof -
  have card: "card (square ` set ts) = length ts"
    using distinct_card [OF assms(1)] by simp
  have sub: "square ` set ts \<subseteq> grid" using assms(2) by (rule on_board_grid)
  show ?thesis
  proof
    assume "all_cells_filled b"
    then have "grid \<subseteq> square ` set ts" by (simp add: all_cells_filled_grid [OF assms(3)])
    with sub have "square ` set ts = grid" by (rule equalityI)
    with card show "length ts = 9" by (simp add: card_grid)
  next
    assume "length ts = 9"
    with card have "card (square ` set ts) = card grid" by (simp add: card_grid)
    with finite_grid sub have "square ` set ts = grid" by (rule card_subset_eq)
    then show "all_cells_filled b" by (simp add: all_cells_filled_grid [OF assms(3)])
  qed
qed

lemma drawn_game_board: "deriveGameBoard drawn_game = Inr drawn_board"
  by (simp add: deriveGameBoard_def INITIAL_GAME_BOARD_def assign_def js_set_def)

lemma drawn_board_no_line: "matching drawn_board = []"
  by (simp add: matching_def WINNING_COMBINATIONS_def line_symbol_def cell_at_def js_get_def)

lemma drawn_game_valid: "distinct (map square drawn_game)" "on_board drawn_game"
  by (simp_all add: on_board_def)










text \<open>
  Claim C6. For a log of distinct moves on the grid, the derivations succeed and the
  outcome is a draw if and only if all nine cells of the derived board are filled and no
  line is complete. The board is full exactly when the log has nine moves; so for a log of
  nine such moves whose board has no complete line the outcome is a draw, and
  \<open>deriveWinner\<close> returns no winner, whatever the registry.
\<close>

theorem draw_iff_full_without_line:
  assumes "distinct (map square ts)" "on_board ts"
  shows "\<exists>b w. deriveGameBoard ts = Inr b \<and> deriveWinner b players = Inr w
           \<and> (hasDraw b \<longleftrightarrow> all_cells_filled b \<and> matching b = [])
           \<and> (all_cells_filled b \<longleftrightarrow> length ts = 9)
           \<and> (length ts = 9 \<and> matching b = [] \<longrightarrow> hasDraw b \<and> w = None)"
proof -
  from deriveGameBoard_count [OF assms]
  obtain b where b: "deriveGameBoard ts = Inr b" by auto
  then have rows: "3 \<le> length b" by (simp add: deriveGameBoard_rows)
  define w where "w = (case matching b of [] \<Rightarrow> None
                       | m # ms \<Rightarrow> Option.bind (line_symbol b (last (m # ms))) players)"
  have w: "deriveWinner b players = Inr w"
    unfolding w_def using rows by (rule deriveWinner_last_match)
  have full: "all_cells_filled b \<longleftrightarrow> length ts = 9"
    using assms b by (rule full_iff_nine_moves)
  have draw: "hasDraw b \<longleftrightarrow> all_cells_filled b \<and> matching b = []"
    by (simp add: hasDraw_def)
  have none: "w = None" if "matching b = []"
    using that by (simp add: w_def)
  from b w draw full none show ?thesis by auto
qed

theorem draw_iff_full_without_line_witness:
  "distinct (map square drawn_game) \<and> on_board drawn_game
   \<and> length drawn_game = 9
   \<and> deriveGameBoard drawn_game = Inr drawn_board
   \<and> matching drawn_board = []
   \<and> deriveWinner drawn_board [''X'' \<mapsto> ''Player 1'', ''O'' \<mapsto> ''Player 2''] = Inr None
   \<and> hasDraw drawn_board"
proof -
  let ?p = "[''X'' \<mapsto> ''Player 1'', ''O'' \<mapsto> ''Player 2'']"
  from draw_iff_full_without_line [OF drawn_game_valid, of ?p]
  obtain b w where b: "deriveGameBoard drawn_game = Inr b"
    and w: "deriveWinner b ?p = Inr w"
    and draw: "length drawn_game = 9 \<and> matching b = [] \<longrightarrow> hasDraw b \<and> w = None"
    by blast
  from b have board: "b = drawn_board" by (simp only: drawn_game_board sum.inject)
  have "length drawn_game = 9" by simp
  with draw have "hasDraw drawn_board" "w = None"
    by (simp_all only: board drawn_board_no_line simp_thms)
  with w have "deriveWinner drawn_board ?p = Inr None" "hasDraw drawn_board"
    by (simp_all only: board)
  with drawn_game_valid drawn_game_board drawn_board_no_line \<open>length drawn_game = 9\<close>
  show ?thesis by (simp only: simp_thms)
qed

end
